theory Spec2Isabelle
  imports Main
begin

section \<open>JavaScript primitives used by the chat endpoint\<close>

text \<open>
  Strings are lists of characters; \<open>slice\<close>, \<open>join\<close> and the indexed \<open>map\<close> of
  arrays are written out as ECMAScript defines them.  \<open>js_slice start end xs\<close> is
  \<^verbatim>\<open>xs.slice(start, end)\<close> (strings and arrays alike): a negative bound counts from
  the end, every bound is clamped to the length, an absent end is the length.
\<close>

definition js_slice :: "int \<Rightarrow> int option \<Rightarrow> 'a list \<Rightarrow> 'a list" where
  "js_slice start fin xs =
     (let len = int (length xs);
          from = (if start < 0 then max (len + start) 0 else min start len);
          e = (case fin of None \<Rightarrow> len | Some v \<Rightarrow> v);
          to = (if e < 0 then max (len + e) 0 else min e len)
      in take (nat (to - from)) (drop (nat from) xs))"

fun js_join :: "string \<Rightarrow> string list \<Rightarrow> string" where
  "js_join sep [] = []"
| "js_join sep [x] = x"
| "js_join sep (x # y # ys) = x @ sep @ js_join sep (y # ys)"

fun js_map_from :: "nat \<Rightarrow> ('a \<Rightarrow> nat \<Rightarrow> 'b) \<Rightarrow> 'a list \<Rightarrow> 'b list" where
  "js_map_from i f [] = []"
| "js_map_from i f (x # xs) = f x i # js_map_from (Suc i) f xs"

definition js_map_index :: "('a \<Rightarrow> nat \<Rightarrow> 'b) \<Rightarrow> 'a list \<Rightarrow> 'b list" where
  "js_map_index f xs = js_map_from 0 f xs"

text \<open>Decimal rendering of a number inside a template literal.\<close>

definition digit_char :: "nat \<Rightarrow> char" where
  "digit_char d = ''0123456789'' ! (d mod 10)"

fun show_nat :: "nat \<Rightarrow> string" where
  "show_nat n = (if n < 10 then [digit_char n] else show_nat (n div 10) @ [digit_char (n mod 10)])"

declare show_nat.simps [simp del]

definition show_int :: "int \<Rightarrow> string" where
  "show_int i = (if i < 0 then ''-'' @ show_nat (nat (- i)) else show_nat (nat i))"

section \<open>Data model\<close>

datatype role = User | Assistant

fun role_text :: "role \<Rightarrow> string" where
  "role_text User = ''user''"
| "role_text Assistant = ''assistant''"

record HistoryEntry =
  role :: role
  entry_text :: string

record ThreadData =
  entries :: "HistoryEntry list"
  lastAccess :: int

text \<open>
  \<^verbatim>\<open>threads\<close> is a JavaScript \<^verbatim>\<open>Map\<close>: it iterates in insertion order, \<^verbatim>\<open>set\<close> on a
  present key replaces the value in place, on a new key appends.  The model is the list
  of its entries in iteration order.
\<close>

type_synonym threads = "(string \<times> ThreadData) list"

record SearchResult =
  title :: string
  content :: string
  path :: string

text \<open>
  A hit of the search engine, with the attributes \<^verbatim>\<open>searchNearDocs\<close> reads; each may be
  missing.  \<open>hit_formatted_content\<close> is \<^verbatim>\<open>hit._formatted?.content\<close>.
\<close>

record hit =
  hit_title :: "string option"
  hit_formatted_content :: "string option"
  hit_content :: "string option"
  hit_path :: "string option"

datatype content_block = Text_Block string | Other_Block

datatype failure = Thrown string

record source_ref =
  src_title :: string
  src_path :: string

text \<open>The parsed request body \<^verbatim>\<open>{ messages, threadId }\<close>; \<open>None\<close> is an absent field.\<close>

record chat_body =
  messages :: "string option"
  threadId :: "string option"

text \<open>What the handler writes to \<^verbatim>\<open>res\<close>.\<close>

datatype response =
  Status_Error nat string
| Chat_Ok string string "source_ref list"

text \<open>Calls that leave the process, in the order made.\<close>

datatype call = Search_Call string | Model_Call string

text \<open>
  What the handler reads from outside: whether the model client exists, the search
  engine and the model as functions of what they are sent, and the three readings of
  \<^verbatim>\<open>Date.now()\<close> (when the thread is touched, when an id is minted, when the record is
  stored).
\<close>

record env =
  anthropic_configured :: bool
  search_engine :: "string \<Rightarrow> failure + hit list"
  model_api :: "string \<Rightarrow> failure + content_block list"
  now_access :: int
  now_id :: int
  now_put :: int

section \<open>Session store\<close>

definition MAX_HISTORY_ENTRIES :: int where
  "MAX_HISTORY_ENTRIES = 4"

definition MAX_HISTORY_CHAR :: int where
  "MAX_HISTORY_CHAR = 200"

definition THREAD_TTL_MS :: int where
  "THREAD_TTL_MS = 30 * 60 * 1000"

definition MAX_CONTENT_LENGTH :: int where
  "MAX_CONTENT_LENGTH = 800"

definition threads_has :: "string \<Rightarrow> threads \<Rightarrow> bool" where
  "threads_has k ts = (k \<in> set (map fst ts))"

definition threads_get :: "string \<Rightarrow> threads \<Rightarrow> ThreadData option" where
  "threads_get k ts = map_of ts k"

fun threads_set :: "string \<Rightarrow> ThreadData \<Rightarrow> threads \<Rightarrow> threads" where
  "threads_set k v [] = [(k, v)]"
| "threads_set k v ((k', v') # ts) =
     (if k' = k then (k, v) # ts else (k', v') # threads_set k v ts)"

definition threads_delete :: "string \<Rightarrow> threads \<Rightarrow> threads" where
  "threads_delete k ts = filter (\<lambda>kv. fst kv \<noteq> k) ts"

text \<open>
  \<^verbatim>\<open>cleanExpiredThreads\<close>: the loop visits every entry of the map and deletes the
  expired ones by key.  \<open>now\<close> is the reading of the clock at the start of the sweep.
\<close>

definition cleanExpiredThreads :: "int \<Rightarrow> threads \<Rightarrow> threads" where
  "cleanExpiredThreads now ts =
     fold (\<lambda>kv acc. if now - lastAccess (snd kv) > THREAD_TTL_MS
                     then threads_delete (fst kv) acc else acc) ts ts"

section \<open>Search gateway\<close>

fun or_else :: "string option \<Rightarrow> string \<Rightarrow> string" where
  "or_else None d = d"
| "or_else (Some s) d = (if s = [] then d else s)"

definition hit_to_result :: "hit \<Rightarrow> SearchResult" where
  "hit_to_result h =
     \<lparr> title = or_else (hit_title h) ''Untitled'',
       content = js_slice 0 (Some MAX_CONTENT_LENGTH)
                   (or_else (hit_formatted_content h) (or_else (hit_content h) [])),
       path = or_else (hit_path h) [] \<rparr>"

definition searchNearDocs :: "(string \<Rightarrow> failure + hit list) \<Rightarrow> string \<Rightarrow> failure + SearchResult list" where
  "searchNearDocs engine query =
     (case engine query of
        Inl e \<Rightarrow> Inl e
      | Inr hits \<Rightarrow> Inr (map hit_to_result hits))"

section \<open>Context assembly\<close>

definition doc_block :: "SearchResult \<Rightarrow> nat \<Rightarrow> string" where
  \<open>doc_block r i =
     ''<doc index="'' @ show_nat (i + 1) @ ''">\<newline><title>'' @ title r
       @ ''</title>\<newline><path>'' @ path r
       @ ''</path>\<newline><content>'' @ content r
       @ ''</content>\<newline></doc>''\<close>

definition buildSearchContext :: "SearchResult list \<Rightarrow> string" where
  "buildSearchContext results =
     (if length results = 0
      then ''<search_results>\<newline>No documents found for this query.\<newline></search_results>''
      else ''<search_results>\<newline>''
             @ js_join ''\<newline>'' (js_map_index doc_block results)
             @ ''\<newline></search_results>'')"

definition history_line :: "HistoryEntry \<Rightarrow> string" where
  "history_line entry =
     role_text (role entry) @ '': '' @ js_slice 0 (Some MAX_HISTORY_CHAR) (entry_text entry)"

definition buildHistoryContext :: "HistoryEntry list \<Rightarrow> string" where
  "buildHistoryContext history =
     (if length history = 0 then []
      else ''<conversation_history>\<newline>''
             @ js_join ''\<newline>''
                 (map history_line (js_slice (- MAX_HISTORY_ENTRIES) None history))
             @ ''\<newline></conversation_history>\<newline>\<newline>'')"

section \<open>The chat handler\<close>

text \<open>Resolving the session: the thread is touched and its entries are read.\<close>

definition resolve_history :: "string option \<Rightarrow> int \<Rightarrow> threads \<Rightarrow> HistoryEntry list \<times> threads" where
  "resolve_history tid now ts =
     (case tid of
        None \<Rightarrow> ([], ts)
      | Some k \<Rightarrow>
          if k \<noteq> [] \<and> threads_has k ts
          then (case threads_get k ts of
                  None \<Rightarrow> ([], ts)
                | Some thread \<Rightarrow>
                    (entries thread, threads_set k (thread\<lparr>lastAccess := now\<rparr>) ts))
          else ([], ts))"

definition assistant_text :: "content_block list \<Rightarrow> string" where
  "assistant_text blocks =
     (case find (\<lambda>b. case b of Text_Block _ \<Rightarrow> True | Other_Block \<Rightarrow> False) blocks of
        Some (Text_Block t) \<Rightarrow> t
      | _ \<Rightarrow> ''No response generated.'')"

definition new_thread_id :: "string option \<Rightarrow> int \<Rightarrow> string" where
  "new_thread_id tid now =
     (case tid of
        None \<Rightarrow> ''thread_'' @ show_int now
      | Some k \<Rightarrow> if k \<noteq> [] then k else ''thread_'' @ show_int now)"

definition updated_entries :: "HistoryEntry list \<Rightarrow> string \<Rightarrow> string \<Rightarrow> HistoryEntry list" where
  "updated_entries history userMessage assistantMessage =
     js_slice (- MAX_HISTORY_ENTRIES) None
       (history @ [\<lparr>role = User, entry_text = userMessage\<rparr>,
                   \<lparr>role = Assistant, entry_text = assistantMessage\<rparr>])"

text \<open>
  The size check after the insert: the first key of the iteration is deleted, unless
  there is none or it is falsy.
\<close>

definition enforce_capacity :: "threads \<Rightarrow> threads" where
  "enforce_capacity ts =
     (if length ts > 100
      then (case ts of
              [] \<Rightarrow> ts
            | (oldestKey, _) # _ \<Rightarrow>
                if oldestKey \<noteq> [] then threads_delete oldestKey ts else ts)
      else ts)"

definition sources_of :: "SearchResult list \<Rightarrow> source_ref list" where
  "sources_of searchResults =
     map (\<lambda>r. \<lparr>src_title = title r, src_path = path r\<rparr>)
       (filter (\<lambda>r. path r \<noteq> []) searchResults)"

definition user_content :: "HistoryEntry list \<Rightarrow> SearchResult list \<Rightarrow> string \<Rightarrow> string" where
  "user_content history searchResults userMessage =
     buildHistoryContext history @ buildSearchContext searchResults
       @ ''\<newline>\<newline>'' @ userMessage"

definition failed :: response where
  "failed = Status_Error 500 ''Failed to process chat request''"

text \<open>
  \<^verbatim>\<open>chatHandler\<close> run from start to end with nothing else in between: the response,
  the store afterwards and the outside calls made.  \<open>body = None\<close> is a request without
  a parsed body, on which the destructuring throws into the \<^verbatim>\<open>catch\<close>.  A throw of
  the model call comes after the thread was touched.
\<close>

definition chatHandler :: "env \<Rightarrow> threads \<Rightarrow> chat_body option \<Rightarrow> response \<times> threads \<times> call list" where
  "chatHandler ev ts body =
     (case body of
        None \<Rightarrow> (failed, ts, [])
      | Some b \<Rightarrow>
          (case messages b of
             None \<Rightarrow> (Status_Error 400 ''Message is required'', ts, [])
           | Some userMessage \<Rightarrow>
               if userMessage = [] then (Status_Error 400 ''Message is required'', ts, [])
               else if \<not> anthropic_configured ev
               then (Status_Error 500 ''Anthropic API key not configured'', ts, [])
               else
                 (case searchNearDocs (search_engine ev) userMessage of
                    Inl e \<Rightarrow> (failed, ts, [Search_Call userMessage])
                  | Inr searchResults \<Rightarrow>
                      let (history, ts1) = resolve_history (threadId b) (now_access ev) ts;
                          userContent = user_content history searchResults userMessage;
                          calls = [Search_Call userMessage, Model_Call userContent]
                      in (case model_api ev userContent of
                            Inl e \<Rightarrow> (failed, ts1, calls)
                          | Inr blocks \<Rightarrow>
                              let assistantMessage = assistant_text blocks;
                                  newThreadId = new_thread_id (threadId b) (now_id ev);
                                  updatedEntries = updated_entries history userMessage assistantMessage;
                                  ts2 = threads_set newThreadId
                                          \<lparr>entries = updatedEntries, lastAccess = now_put ev\<rparr> ts1;
                                  ts3 = enforce_capacity ts2
                              in (Chat_Ok assistantMessage newThreadId (sources_of searchResults),
                                  ts3, calls)))))"

text \<open>
  The handler is asynchronous: it suspends at \<^verbatim>\<open>await searchNearDocs(...)\<close> and at
  \<^verbatim>\<open>await anthropic.messages.create(...)\<close>, and other requests and the sweep run
  meanwhile.  Nothing reads the store before the search returns.  \<open>chat_begin\<close> is the
  handler from its start to the point where the model call is issued, on the store as
  it is when the search returns: it resolves the session and keeps, for later, what the
  request has read.  \<open>chat_finish\<close> is the rest, on the store as it is when the model
  call returns.
\<close>

record pending =
  p_message :: string
  p_threadId :: "string option"
  p_results :: "SearchResult list"
  p_history :: "HistoryEntry list"
  p_content :: string

definition chat_begin :: "env \<Rightarrow> threads \<Rightarrow> chat_body option \<Rightarrow> (response + pending) \<times> threads \<times> call list" where
  "chat_begin ev ts body =
     (case body of
        None \<Rightarrow> (Inl failed, ts, [])
      | Some b \<Rightarrow>
          (case messages b of
             None \<Rightarrow> (Inl (Status_Error 400 ''Message is required''), ts, [])
           | Some userMessage \<Rightarrow>
               if userMessage = [] then (Inl (Status_Error 400 ''Message is required''), ts, [])
               else if \<not> anthropic_configured ev
               then (Inl (Status_Error 500 ''Anthropic API key not configured''), ts, [])
               else
                 (case searchNearDocs (search_engine ev) userMessage of
                    Inl e \<Rightarrow> (Inl failed, ts, [Search_Call userMessage])
                  | Inr searchResults \<Rightarrow>
                      let (history, ts1) = resolve_history (threadId b) (now_access ev) ts;
                          userContent = user_content history searchResults userMessage
                      in (Inr \<lparr>p_message = userMessage, p_threadId = threadId b,
                               p_results = searchResults, p_history = history,
                               p_content = userContent\<rparr>,
                          ts1, [Search_Call userMessage, Model_Call userContent]))))"

definition chat_finish :: "env \<Rightarrow> pending \<Rightarrow> threads \<Rightarrow> response \<times> threads" where
  "chat_finish ev p ts =
     (case model_api ev (p_content p) of
        Inl e \<Rightarrow> (failed, ts)
      | Inr blocks \<Rightarrow>
          let assistantMessage = assistant_text blocks;
              newThreadId = new_thread_id (p_threadId p) (now_id ev);
              updatedEntries = updated_entries (p_history p) (p_message p) assistantMessage;
              ts2 = threads_set newThreadId
                      \<lparr>entries = updatedEntries, lastAccess = now_put ev\<rparr> ts;
              ts3 = enforce_capacity ts2
          in (Chat_Ok assistantMessage newThreadId (sources_of (p_results p)), ts3))"

section \<open>Reachable stores and runs of turns\<close>

text \<open>
  A well-formed store is a \<^verbatim>\<open>Map\<close> (no key twice) whose keys are truthy: the handler
  only ever stores under \<^verbatim>\<open>threadId || `thread_${Date.now()}`\<close>.  \<open>threads_inv\<close> adds
  the two bounds that hold of every store the handler and the sweep can produce from
  the empty map.
\<close>

definition wf_threads :: "threads \<Rightarrow> bool" where
  "wf_threads ts = (distinct (map fst ts) \<and> [] \<notin> set (map fst ts))"

definition threads_inv :: "threads \<Rightarrow> bool" where
  "threads_inv ts =
     (wf_threads ts \<and> length ts \<le> 100 \<and> (\<forall>kv \<in> set ts. length (entries (snd kv)) \<le> 4))"

definition stored_entries :: "string \<Rightarrow> threads \<Rightarrow> HistoryEntry list" where
  "stored_entries k ts = (case threads_get k ts of None \<Rightarrow> [] | Some thread \<Rightarrow> entries thread)"

definition expired :: "int \<Rightarrow> string \<times> ThreadData \<Rightarrow> bool" where
  "expired now kv = (now - lastAccess (snd kv) > THREAD_TTL_MS)"

definition turn_request :: "string \<Rightarrow> string \<Rightarrow> chat_body option" where
  "turn_request tid msg = Some \<lparr>messages = Some msg, threadId = Some tid\<rparr>"

text \<open>
  Requests on one thread id handled one after another: each is answered before the
  next one starts, and no other request and no sweep runs in between, so each is one
  run of \<open>chatHandler\<close> on the store the previous one left.  Each has its own
  environment and message.  The result is the store afterwards and, for the turns that
  completed (answered with the chat payload), the user text sent and the assistant text
  returned, in order.
\<close>

fun chat_turns :: "string \<Rightarrow> threads \<Rightarrow> (env \<times> string) list \<Rightarrow> threads \<times> HistoryEntry list" where
  "chat_turns tid ts [] = (ts, [])"
| "chat_turns tid ts ((ev, msg) # rest) =
     (case chatHandler ev ts (turn_request tid msg) of
        (Chat_Ok m _ _, ts', _) \<Rightarrow>
          (let (ts'', es) = chat_turns tid ts' rest
           in (ts'', \<lparr>role = User, entry_text = msg\<rparr> # \<lparr>role = Assistant, entry_text = m\<rparr> # es))
      | (Status_Error _ _, ts', _) \<Rightarrow> chat_turns tid ts' rest)"

subsection \<open>Collaborators for concrete runs\<close>

definition no_hits :: "string \<Rightarrow> failure + hit list" where
  "no_hits q = Inr []"

definition two_hits :: "string \<Rightarrow> failure + hit list" where
  "two_hits q =
     Inr [\<lparr>hit_title = Some ''Accounts'', hit_formatted_content = None,
           hit_content = Some ''An account'', hit_path = Some ''/accounts''\<rparr>,
          \<lparr>hit_title = None, hit_formatted_content = Some ''cropped'',
           hit_content = Some ''full'', hit_path = None\<rparr>]"

definition long_hit :: "string \<Rightarrow> failure + hit list" where
  "long_hit q = Inr [\<lparr>hit_title = Some ''T'', hit_formatted_content = None,
                      hit_content = Some (replicate 1000 (CHR ''x'')), hit_path = Some ''/p''\<rparr>]"

definition reply_ok :: "string \<Rightarrow> failure + content_block list" where
  "reply_ok c = Inr [Other_Block, Text_Block ''ok'']"

definition demo_env :: "(string \<Rightarrow> failure + hit list) \<Rightarrow> int \<Rightarrow> env" where
  "demo_env engine now =
     \<lparr>anthropic_configured = True, search_engine = engine, model_api = reply_ok,
      now_access = now, now_id = now, now_put = now\<rparr>"

definition demo_store :: threads where
  "demo_store = [(''t'', \<lparr>entries = [\<lparr>role = User, entry_text = ''hi''\<rparr>], lastAccess = 0\<rparr>),
                 (''u'', \<lparr>entries = [], lastAccess = 1000\<rparr>)]"

definition slot :: "nat \<Rightarrow> string \<times> ThreadData" where
  "slot n = (replicate (Suc n) (CHR ''s''), \<lparr>entries = [], lastAccess = int n\<rparr>)"

definition full_store :: threads where
  "full_store = map slot [0..<100]"

definition long_history :: "HistoryEntry list" where
  "long_history =
     [\<lparr>role = User, entry_text = ''one''\<rparr>,
      \<lparr>role = Assistant, entry_text = ''two''\<rparr>,
      \<lparr>role = User, entry_text = replicate 250 (CHR ''x'')\<rparr>,
      \<lparr>role = Assistant, entry_text = ''four''\<rparr>,
      \<lparr>role = User, entry_text = ''five''\<rparr>]"

definition search_down :: "string \<Rightarrow> failure + hit list" where
  "search_down q = Inl (Thrown ''ECONNREFUSED'')"

definition long_store :: threads where
  "long_store = [(''t'', \<lparr>entries = [\<lparr>role = User, entry_text = replicate 250 (CHR ''x'')\<rparr>,
                                       \<lparr>role = Assistant, entry_text = ''two''\<rparr>],
                          lastAccess = 0\<rparr>)]"

definition long_content :: string where
  "long_content =
     ''<conversation_history>\<newline>user: '' @ replicate 200 (CHR ''x'')
       @ ''\<newline>assistant: two\<newline></conversation_history>\<newline>\<newline><search_results>\<newline>No documents found for this query.\<newline></search_results>\<newline>\<newline>q''"

definition no_documents :: "string \<Rightarrow> string" where
  "no_documents msg =
     ''<search_results>\<newline>No documents found for this query.\<newline></search_results>\<newline>\<newline>'' @ msg"

definition asks :: "string \<Rightarrow> string \<Rightarrow> pending" where
  "asks tid msg = \<lparr>p_message = msg, p_threadId = Some tid, p_results = [], p_history = [],
                    p_content = no_documents msg\<rparr>"

definition exchange :: "string \<Rightarrow> string \<Rightarrow> HistoryEntry list" where
  "exchange msg reply = [\<lparr>role = User, entry_text = msg\<rparr>, \<lparr>role = Assistant, entry_text = reply\<rparr>]"

text \<open>
  A full store in which the session \<open>''s''\<close> is first: a turn on it, a turn of a new
  session, and a second turn on it.
\<close>

definition after_a :: threads where
  "after_a = fst (snd (chatHandler (demo_env no_hits 10) full_store (turn_request ''s'' ''a'')))"

definition after_new :: threads where
  "after_new = fst (snd (chatHandler (demo_env no_hits 20) after_a (turn_request ''new'' ''x'')))"

definition after_b :: threads where
  "after_b = fst (snd (chatHandler (demo_env no_hits 30) after_new (turn_request ''s'' ''b'')))"

section \<open>Facts about the primitives and the store\<close>

lemma js_slice_last: "js_slice (- 4) None xs = drop (length xs - 4) xs"
  by (auto simp: js_slice_def Let_def max_def min_def nat_diff_distrib')

lemma js_slice_prefix: "0 \<le> n \<Longrightarrow> js_slice 0 (Some n) xs = take (nat n) xs"
  by (auto simp: js_slice_def Let_def max_def min_def)

lemma drop_last_idem:
  "drop (length (drop (length xs - n) xs @ ys) - n) (drop (length xs - n) xs @ ys)
     = drop (length (xs @ ys) - n) (xs @ ys)"
  by (cases "length xs \<le> n") (auto simp: add.commute)

lemma threads_set_keys:
  "map fst (threads_set k v ts) = (if k \<in> set (map fst ts) then map fst ts else map fst ts @ [k])"
  by (induction k v ts rule: threads_set.induct) (auto simp: image_iff)

lemma threads_set_get: "map_of (threads_set k v ts) = (map_of ts)(k \<mapsto> v)"
  by (induction ts) (auto simp: fun_eq_iff)

lemma threads_set_length:
  "length (threads_set k v ts) = (if k \<in> set (map fst ts) then length ts else Suc (length ts))"
  by (induction k v ts rule: threads_set.induct) (auto simp: image_iff)

lemma threads_set_values:
  "set (threads_set k v ts) \<subseteq> insert (k, v) (set ts)"
  by (induction k v ts rule: threads_set.induct) (auto split: if_splits)

lemma threads_has_get: "threads_has k ts \<longleftrightarrow> threads_get k ts \<noteq> None"
  by (simp add: threads_has_def threads_get_def map_of_eq_None_iff)

lemma sweep_fold:
  "fold (\<lambda>kv acc. if expired now kv then threads_delete (fst kv) acc else acc) xs acc
     = filter (\<lambda>kv. fst kv \<notin> fst ` {x \<in> set xs. expired now x}) acc"
proof (induction xs arbitrary: acc)
  case Nil
  then show ?case by simp
next
  case (Cons x xs)
  show ?case
    by (auto simp: Cons.IH threads_delete_def intro!: filter_cong)
qed

lemma sweep_filter:
  assumes "distinct (map fst ts)"
  shows "cleanExpiredThreads now ts = filter (\<lambda>kv. \<not> expired now kv) ts"
proof -
  have "cleanExpiredThreads now ts
          = filter (\<lambda>kv. fst kv \<notin> fst ` {x \<in> set ts. expired now x}) ts"
    using sweep_fold [of now ts ts] by (simp add: cleanExpiredThreads_def expired_def)
  also have "\<dots> = filter (\<lambda>kv. \<not> expired now kv) ts"
  proof (rule filter_cong [OF refl])
    fix kv assume kv: "kv \<in> set ts"
    show "(fst kv \<notin> fst ` {x \<in> set ts. expired now x}) = (\<not> expired now kv)"
    proof
      assume "fst kv \<notin> fst ` {x \<in> set ts. expired now x}"
      with kv show "\<not> expired now kv" by auto
    next
      assume ne: "\<not> expired now kv"
      show "fst kv \<notin> fst ` {x \<in> set ts. expired now x}"
      proof
        assume "fst kv \<in> fst ` {x \<in> set ts. expired now x}"
        then obtain x where x: "x \<in> set ts" "expired now x" "fst x = fst kv" by auto
        from assms kv x(1,3) have "x = kv"
          by (metis eq_key_imp_eq_value prod.collapse)
        with x(2) ne show False by simp
      qed
    qed
  qed
  finally show ?thesis .
qed

section \<open>Facts about the handler\<close>

lemma threads_set_fresh: "k \<notin> set (map fst ts) \<Longrightarrow> threads_set k v ts = ts @ [(k, v)]"
  by (induction k v ts rule: threads_set.induct) auto

lemma threads_delete_head:
  assumes "distinct (map fst ((k, v) # ts))"
  shows "threads_delete k ((k, v) # ts) = ts"
proof -
  have "\<forall>kv \<in> set ts. fst kv \<noteq> k" using assms by auto
  then have "filter (\<lambda>kv. fst kv \<noteq> k) ts = ts" by (simp add: filter_id_conv)
  then show ?thesis by (simp add: threads_delete_def)
qed

lemma enforce_capacity_wf:
  assumes "wf_threads ts"
  shows "enforce_capacity ts = (if length ts > 100 then tl ts else ts)"
proof (cases ts)
  case Nil
  then show ?thesis by (simp add: enforce_capacity_def)
next
  case (Cons kv rest)
  obtain k v where kv: "kv = (k, v)" by (cases kv)
  from assms Cons kv have "k \<noteq> []" and "distinct (map fst ((k, v) # rest))"
    by (auto simp: wf_threads_def)
  then show ?thesis
    using Cons kv threads_delete_head [of k v rest]
    by (simp add: enforce_capacity_def)
qed

lemma resolve_history_keys: "map fst (snd (resolve_history tid now ts)) = map fst ts"
  by (auto simp: resolve_history_def threads_set_keys threads_has_def threads_get_def
           split: option.splits)

lemma resolve_history_length: "length (snd (resolve_history tid now ts)) = length ts"
  using resolve_history_keys [of tid now ts] by (metis length_map)

lemma resolve_history_fst:
  "fst (resolve_history tid now ts) =
     (case tid of None \<Rightarrow> [] | Some k \<Rightarrow> if k = [] then [] else stored_entries k ts)"
  by (auto simp: resolve_history_def stored_entries_def threads_has_get split: option.splits)

lemma resolve_history_stored:
  "stored_entries k (snd (resolve_history tid now ts)) = stored_entries k ts"
  by (auto simp: resolve_history_def stored_entries_def threads_get_def threads_set_get
           split: option.splits)

lemma resolve_history_entries:
  assumes "kv \<in> set (snd (resolve_history tid now ts))"
  shows "\<exists>kv' \<in> set ts. entries (snd kv) = entries (snd kv')"
proof (cases "kv \<in> set ts")
  case True
  then show ?thesis by blast
next
  case False
  with assms obtain k thread where k: "tid = Some k" "threads_get k ts = Some thread"
      and mem: "kv \<in> set (threads_set k (thread\<lparr>lastAccess := now\<rparr>) ts)"
    by (auto simp: resolve_history_def split: option.splits if_splits)
  from mem False threads_set_values [of k "thread\<lparr>lastAccess := now\<rparr>" ts]
  have "kv = (k, thread\<lparr>lastAccess := now\<rparr>)" by auto
  moreover from k(2) have "(k, thread) \<in> set ts"
    by (simp add: threads_get_def map_of_SomeD)
  ultimately show ?thesis by force
qed

lemma new_thread_id_truthy: "new_thread_id tid now \<noteq> []"
  by (auto simp: new_thread_id_def split: option.splits)

lemma updated_entries_eq:
  "updated_entries h u a =
     drop (length h - 2) (h @ [\<lparr>role = User, entry_text = u\<rparr>, \<lparr>role = Assistant, entry_text = a\<rparr>])"
  by (simp add: updated_entries_def MAX_HISTORY_ENTRIES_def js_slice_last)

lemma updated_entries_length: "length (updated_entries h u a) \<le> 4"
  by (simp add: updated_entries_eq)

lemma chat_ok_cases:
  assumes "chatHandler ev ts (Some b) = (Chat_Ok m tid srcs, ts', calls)"
  obtains msg rs blocks where
    "messages b = Some msg" "msg \<noteq> []" "anthropic_configured ev"
    "searchNearDocs (search_engine ev) msg = Inr rs"
    "model_api ev (user_content (fst (resolve_history (threadId b) (now_access ev) ts)) rs msg)
       = Inr blocks"
    "m = assistant_text blocks"
    "tid = new_thread_id (threadId b) (now_id ev)"
    "srcs = sources_of rs"
    "ts' = enforce_capacity
             (threads_set tid
                \<lparr>entries = updated_entries (fst (resolve_history (threadId b) (now_access ev) ts)) msg m,
                 lastAccess = now_put ev\<rparr>
                (snd (resolve_history (threadId b) (now_access ev) ts)))"
    "calls = [Search_Call msg,
              Model_Call (user_content (fst (resolve_history (threadId b) (now_access ev) ts)) rs msg)]"
  using assms unfolding chatHandler_def failed_def
  by (auto simp: Let_def split: option.splits if_splits sum.splits prod.splits)

lemma chat_error_store:
  assumes "chatHandler ev ts body = (Status_Error c e, ts', calls)"
  shows "ts' = ts \<or> ts' = snd (resolve_history (threadId (the body)) (now_access ev) ts)"
  using assms unfolding chatHandler_def failed_def
  by (auto simp: Let_def split: option.splits if_splits sum.splits prod.splits)

section \<open>The store invariant\<close>

lemma wf_threads_resolve:
  "wf_threads ts \<Longrightarrow> wf_threads (snd (resolve_history tid now ts))"
  by (simp add: wf_threads_def resolve_history_keys)

lemma threads_inv_resolve:
  assumes "threads_inv ts"
  shows "threads_inv (snd (resolve_history tid now ts))"
proof -
  have "\<forall>kv \<in> set (snd (resolve_history tid now ts)). length (entries (snd kv)) \<le> 4"
  proof
    fix kv assume "kv \<in> set (snd (resolve_history tid now ts))"
    then obtain kv' where "kv' \<in> set ts" "entries (snd kv) = entries (snd kv')"
      using resolve_history_entries by blast
    with assms show "length (entries (snd kv)) \<le> 4" by (simp add: threads_inv_def)
  qed
  with assms show ?thesis
    by (simp add: threads_inv_def wf_threads_resolve resolve_history_length)
qed

lemma wf_threads_set:
  "wf_threads ts \<Longrightarrow> k \<noteq> [] \<Longrightarrow> wf_threads (threads_set k v ts)"
  by (auto simp: wf_threads_def threads_set_keys)

lemma wf_threads_tl: "wf_threads ts \<Longrightarrow> wf_threads (tl ts)"
  by (cases ts) (auto simp: wf_threads_def)

lemma wf_threads_enforce: "wf_threads ts \<Longrightarrow> wf_threads (enforce_capacity ts)"
  by (simp add: enforce_capacity_wf wf_threads_tl)

lemma threads_inv_insert:
  assumes "threads_inv ts" "k \<noteq> []" "length (entries v) \<le> 4"
  shows "threads_inv (enforce_capacity (threads_set k v ts))"
proof -
  let ?ts2 = "threads_set k v ts"
  have wf2: "wf_threads ?ts2" using assms by (simp add: threads_inv_def wf_threads_set)
  have len2: "length ?ts2 \<le> 101" using assms by (simp add: threads_inv_def threads_set_length)
  have ent2: "\<forall>kv \<in> set ?ts2. length (entries (snd kv)) \<le> 4"
    using assms threads_set_values [of k v ts] by (auto simp: threads_inv_def)
  have eq: "enforce_capacity ?ts2 = (if length ?ts2 > 100 then tl ?ts2 else ?ts2)"
    using wf2 by (rule enforce_capacity_wf)
  have "length (enforce_capacity ?ts2) \<le> 100" using len2 by (simp add: eq, arith)
  moreover have "\<forall>kv \<in> set (enforce_capacity ?ts2). length (entries (snd kv)) \<le> 4"
    using ent2 by (auto simp: eq dest: list.set_sel(2) [rotated])
  ultimately show ?thesis using wf2 by (simp add: threads_inv_def wf_threads_enforce)
qed

lemma threads_inv_chat:
  assumes "threads_inv ts"
  shows "threads_inv (fst (snd (chatHandler ev ts body)))"
proof -
  obtain r ts' calls where out: "chatHandler ev ts body = (r, ts', calls)"
    by (cases "chatHandler ev ts body") auto
  have "threads_inv ts'"
  proof (cases r)
    case (Status_Error c e)
    with out chat_error_store [of ev ts body c e ts' calls] assms show ?thesis
      by (auto simp: threads_inv_resolve)
  next
    case (Chat_Ok m tid srcs)
    with out obtain b where b: "body = Some b"
      by (cases body) (auto simp: chatHandler_def failed_def)
    from out Chat_Ok b have h: "chatHandler ev ts (Some b) = (Chat_Ok m tid srcs, ts', calls)"
      by simp
    show ?thesis
      by (rule chat_ok_cases [OF h])
         (simp add: threads_inv_insert threads_inv_resolve assms new_thread_id_truthy
                    updated_entries_length)
  qed
  with out show ?thesis by simp
qed

lemma threads_inv_empty: "threads_inv []"
  by (simp add: threads_inv_def wf_threads_def)

lemma threads_inv_sweep:
  assumes "threads_inv ts"
  shows "threads_inv (cleanExpiredThreads now ts)"
proof -
  from assms have d: "distinct (map fst ts)" by (simp add: threads_inv_def wf_threads_def)
  have le: "length (filter (\<lambda>kv. \<not> expired now kv) ts) \<le> 100"
    by (rule order_trans [OF length_filter_le]) (use assms in \<open>simp add: threads_inv_def\<close>)
  from assms le show ?thesis
    unfolding sweep_filter [OF d] threads_inv_def wf_threads_def
    by (auto simp: distinct_map_filter)
qed

text \<open>A completed turn leaves its record in the store, whatever the capacity check did.\<close>

lemma stored_after_insert:
  assumes "wf_threads ts" "length ts \<le> 100" "k \<noteq> []"
  shows "threads_get k (enforce_capacity (threads_set k v ts)) = Some v"
proof -
  let ?ts2 = "threads_set k v ts"
  have get2: "map_of ?ts2 k = Some v" by (simp add: threads_set_get)
  show ?thesis
  proof (cases "length ?ts2 > 100")
    case False
    then show ?thesis by (simp add: enforce_capacity_def threads_get_def get2)
  next
    case True
    with assms(2) have fresh: "k \<notin> set (map fst ts)" and len: "length ts = 100"
      by (auto simp: threads_set_length split: if_splits)
    then obtain kv rest where ts: "ts = kv # rest" by (cases ts) auto
    from fresh have ts2: "?ts2 = ts @ [(k, v)]" by (rule threads_set_fresh)
    from fresh ts have "k \<notin> fst ` set rest" by auto
    then have "map_of (rest @ [(k, v)]) k = Some v"
      by (simp add: map_add_Some_iff map_of_eq_None_iff)
    moreover have "enforce_capacity ?ts2 = tl ?ts2"
      using True wf_threads_set [OF assms(1,3), of v] by (simp add: enforce_capacity_wf)
    moreover have "tl ?ts2 = rest @ [(k, v)]" unfolding ts2 by (simp add: ts)
    ultimately show ?thesis by (simp add: threads_get_def)
  qed
qed

section \<open>The claims\<close>

lemma js_map_from_nth:
  "js_map_from n f xs = map (\<lambda>i. f (xs ! i) (n + i)) [0..<length xs]"
proof (induction xs arbitrary: n)
  case Nil
  then show ?case by simp
next
  case (Cons x xs)
  have "[0..<length (x # xs)] = 0 # map Suc [0..<length xs]"
    by (simp add: upt_conv_Cons map_Suc_upt del: upt_Suc)
  then show ?case by (simp add: Cons.IH comp_def del: upt_Suc)
qed

lemma js_map_index_nth:
  "js_map_index f xs = map (\<lambda>i. f (xs ! i) i) [0..<length xs]"
  by (simp add: js_map_index_def js_map_from_nth)

lemma hit_to_result_content: "length (content (hit_to_result h)) \<le> 800"
  by (simp add: hit_to_result_def MAX_CONTENT_LENGTH_def js_slice_prefix)

text \<open>
  C6.  A request whose body has no \<open>messages\<close> field is answered with status 400 and
  the error payload, no call leaves the process and the store is the one before; and
  the answer 500 "Anthropic API key not configured" is only ever given to a request
  that carries a non-empty message.
\<close>

theorem missing_messages_rejected:
  "(messages b = None \<longrightarrow>
      chatHandler ev ts (Some b) = (Status_Error 400 ''Message is required'', ts, []))
   \<and> (fst (chatHandler ev ts body) = Status_Error 500 ''Anthropic API key not configured''
        \<longrightarrow> (\<exists>b' msg. body = Some b' \<and> messages b' = Some msg \<and> msg \<noteq> []))"
  unfolding chatHandler_def failed_def
  by (auto simp: Let_def split: option.splits sum.splits prod.splits)

theorem missing_messages_rejected_witness:
  "messages \<lparr>messages = None, threadId = Some ''t''\<rparr> = None
   \<and> chatHandler ((demo_env no_hits 5)\<lparr>anthropic_configured := False\<rparr>) demo_store
        (Some \<lparr>messages = None, threadId = Some ''t''\<rparr>)
       = (Status_Error 400 ''Message is required'', demo_store, [])
   \<and> fst (chatHandler ((demo_env no_hits 5)\<lparr>anthropic_configured := False\<rparr>) demo_store
        (Some \<lparr>messages = Some ''q'', threadId = Some ''t''\<rparr>))
       = Status_Error 500 ''Anthropic API key not configured''
   \<and> (\<exists>b' msg. Some \<lparr>messages = Some ''q'', threadId = Some ''t''\<rparr> = Some b'
         \<and> messages b' = Some msg \<and> msg \<noteq> [])"
  using missing_messages_rejected
          [of "\<lparr>messages = None, threadId = Some ''t''\<rparr>"
              "(demo_env no_hits 5)\<lparr>anthropic_configured := False\<rparr>" demo_store
              "Some \<lparr>messages = Some ''q'', threadId = Some ''t''\<rparr>"]
  by (simp add: chatHandler_def demo_env_def)

text \<open>
  C10.  A request whose \<open>messages\<close> field is the empty string is answered exactly as
  one without the field: status 400 "Message is required", no outside call, the store
  as before.
\<close>

theorem empty_messages_rejected:
  "messages b = Some [] \<Longrightarrow>
     chatHandler ev ts (Some b) = (Status_Error 400 ''Message is required'', ts, [])
     \<and> chatHandler ev ts (Some b) = chatHandler ev ts (Some (b\<lparr>messages := None\<rparr>))"
  by (simp add: chatHandler_def)

theorem empty_messages_rejected_witness:
  "messages \<lparr>messages = Some [], threadId = Some ''t''\<rparr> = Some []
   \<and> chatHandler (demo_env two_hits 5) demo_store (Some \<lparr>messages = Some [], threadId = Some ''t''\<rparr>)
       = (Status_Error 400 ''Message is required'', demo_store, [])"
  using empty_messages_rejected
          [of "\<lparr>messages = Some [], threadId = Some ''t''\<rparr>" "demo_env two_hits 5" demo_store]
  by simp

text \<open>
  C7.  The sweep at clock reading \<open>now\<close> keeps, in their order, exactly the records
  with \<open>now - lastAccess \<le> 1800000\<close> (30 minutes) and removes every other one.  It is a
  total function of the clock and the store whose only result is the store.
\<close>

theorem sweep_removes_exactly_expired:
  assumes "distinct (map fst ts)"
  shows "cleanExpiredThreads now ts
           = filter (\<lambda>kv. \<not> (now - lastAccess (snd kv) > 1800000)) ts"
  using sweep_filter [OF assms, of now] by (simp add: expired_def THREAD_TTL_MS_def)

theorem sweep_removes_exactly_expired_witness:
  "distinct (map fst demo_store)
   \<and> cleanExpiredThreads 1801000 demo_store = [(''u'', \<lparr>entries = [], lastAccess = 1000\<rparr>)]
   \<and> cleanExpiredThreads 1801001 demo_store = []"
  using sweep_removes_exactly_expired [of demo_store 1801000]
        sweep_removes_exactly_expired [of demo_store 1801001]
  by (simp add: demo_store_def)

text \<open>
  C8.  In a successful response the \<open>sources\<close> are the search results with a non-empty
  path, in the order of the results, each reduced to its title and path.
\<close>

theorem sources_are_results_with_path:
  assumes "chatHandler ev ts (Some b) = (Chat_Ok m tid srcs, ts', calls)"
    and "messages b = Some msg"
  shows "\<exists>rs. searchNearDocs (search_engine ev) msg = Inr rs
           \<and> srcs = map (\<lambda>r. \<lparr>src_title = title r, src_path = path r\<rparr>)
                      (filter (\<lambda>r. path r \<noteq> []) rs)"
  by (rule chat_ok_cases [OF assms(1)]) (use assms(2) in \<open>simp add: sources_of_def\<close>)

theorem sources_are_results_with_path_witness:
  "fst (chatHandler (demo_env two_hits 7) [] (Some \<lparr>messages = Some ''q'', threadId = Some ''t''\<rparr>))
     = Chat_Ok ''ok'' ''t'' [\<lparr>src_title = ''Accounts'', src_path = ''/accounts''\<rparr>]
   \<and> messages \<lparr>messages = Some ''q'', threadId = Some ''t''\<rparr> = Some ''q''
   \<and> (\<exists>rs. searchNearDocs (search_engine (demo_env two_hits 7)) ''q'' = Inr rs
         \<and> [\<lparr>src_title = ''Accounts'', src_path = ''/accounts''\<rparr>]
             = map (\<lambda>r. \<lparr>src_title = title r, src_path = path r\<rparr>)
                 (filter (\<lambda>r. path r \<noteq> []) rs))"
proof -
  have run: "fst (chatHandler (demo_env two_hits 7) []
                    (Some \<lparr>messages = Some ''q'', threadId = Some ''t''\<rparr>))
     = Chat_Ok ''ok'' ''t'' [\<lparr>src_title = ''Accounts'', src_path = ''/accounts''\<rparr>]"
    by (simp add: chatHandler_def demo_env_def two_hits_def reply_ok_def searchNearDocs_def
          hit_to_result_def assistant_text_def new_thread_id_def sources_of_def Let_def
          split: prod.splits)
  then obtain ts' calls where
    "chatHandler (demo_env two_hits 7) [] (Some \<lparr>messages = Some ''q'', threadId = Some ''t''\<rparr>)
       = (Chat_Ok ''ok'' ''t'' [\<lparr>src_title = ''Accounts'', src_path = ''/accounts''\<rparr>], ts', calls)"
    by (metis prod.collapse)
  from sources_are_results_with_path [OF this, of "''q''"] run
  show ?thesis by simp
qed

text \<open>
  C9.  Every result of the search gateway has a content of at most 800 characters, and
  the doc block built for it carries that content whole: the context assembler cuts
  nothing.
\<close>

theorem search_content_capped:
  assumes "searchNearDocs engine q = Inr rs" and "i < length rs"
  shows "length (content (rs ! i)) \<le> 800
         \<and> js_map_index doc_block rs ! i =
             ''<doc index=\"'' @ show_nat (i + 1) @ ''\">\<newline><title>'' @ title (rs ! i)
               @ ''</title>\<newline><path>'' @ path (rs ! i)
               @ ''</path>\<newline><content>'' @ content (rs ! i)
               @ ''</content>\<newline></doc>''"
proof -
  from assms(1) obtain hits where rs: "rs = map hit_to_result hits"
    by (auto simp: searchNearDocs_def split: sum.splits)
  with assms(2) have "length (content (rs ! i)) \<le> 800"
    by (simp add: hit_to_result_content)
  moreover from assms(2) have "js_map_index doc_block rs ! i = doc_block (rs ! i) i"
    by (simp add: js_map_index_nth)
  ultimately show ?thesis by (simp add: doc_block_def)
qed

theorem search_content_capped_witness:
  "searchNearDocs long_hit ''q''
      = Inr [\<lparr>title = ''T'', content = replicate 800 (CHR ''x''), path = ''/p''\<rparr>]
   \<and> (0::nat) < length [\<lparr>title = ''T'', content = replicate 800 (CHR ''x''), path = ''/p''\<rparr>]
   \<and> length (content ([\<lparr>title = ''T'', content = replicate 800 (CHR ''x''), path = ''/p''\<rparr>] ! 0))
        \<le> 800"
proof -
  have run: "searchNearDocs long_hit ''q''
      = Inr [\<lparr>title = ''T'', content = replicate 800 (CHR ''x''), path = ''/p''\<rparr>]"
    by (simp add: searchNearDocs_def long_hit_def hit_to_result_def MAX_CONTENT_LENGTH_def
          js_slice_prefix)
  have len: "(0::nat) < length [\<lparr>title = ''T'', content = replicate 800 (CHR ''x''), path = ''/p''\<rparr>]"
    by simp
  from search_content_capped [OF run len] run len show ?thesis by simp
qed

text \<open>
  C5.  For no results the search context is the one block with the text
  "No documents found for this query."; for a non-empty list it is the wrapper around
  one doc block per result, in the order of the results, the block of the result at
  position \<open>i\<close> (from 0) carrying the index \<open>i + 1\<close>.
\<close>

theorem search_context_blocks:
  "buildSearchContext []
     = ''<search_results>\<newline>No documents found for this query.\<newline></search_results>''
   \<and> (rs \<noteq> [] \<longrightarrow>
        buildSearchContext rs
          = ''<search_results>\<newline>''
              @ js_join ''\<newline>'' (map (\<lambda>i. doc_block (rs ! i) i) [0..<length rs])
              @ ''\<newline></search_results>'')
   \<and> doc_block r i
        = ''<doc index=\"'' @ show_nat (i + 1) @ ''\">\<newline><title>'' @ title r
            @ ''</title>\<newline><path>'' @ path r
            @ ''</path>\<newline><content>'' @ content r
            @ ''</content>\<newline></doc>''"
  by (simp add: buildSearchContext_def js_map_index_nth doc_block_def)

theorem search_context_blocks_witness:
  "[\<lparr>title = ''A'', content = ''x'', path = ''/a''\<rparr>, \<lparr>title = ''B'', content = ''y'', path = []\<rparr>] \<noteq> []
   \<and> buildSearchContext
         [\<lparr>title = ''A'', content = ''x'', path = ''/a''\<rparr>, \<lparr>title = ''B'', content = ''y'', path = []\<rparr>]
       = ''<search_results>\<newline><doc index=\"1\">\<newline><title>A</title>\<newline><path>/a</path>\<newline><content>x</content>\<newline></doc>\<newline><doc index=\"2\">\<newline><title>B</title>\<newline><path></path>\<newline><content>y</content>\<newline></doc>\<newline></search_results>''"
  using search_context_blocks
          [of "[\<lparr>title = ''A'', content = ''x'', path = ''/a''\<rparr>,
                \<lparr>title = ''B'', content = ''y'', path = []\<rparr>]"]
  by (simp add: doc_block_def show_nat.simps digit_char_def)

lemma chat_ok_stored:
  assumes "threads_inv ts"
    and "chatHandler ev ts (Some b) = (Chat_Ok m tid srcs, ts', calls)"
    and "messages b = Some msg"
  shows "threads_get tid ts'
           = Some \<lparr>entries = updated_entries (fst (resolve_history (threadId b) (now_access ev) ts)) msg m,
                   lastAccess = now_put ev\<rparr>"
proof -
  let ?ts1 = "snd (resolve_history (threadId b) (now_access ev) ts)"
  have "threads_inv ?ts1" using assms(1) by (rule threads_inv_resolve)
  then have wf1: "wf_threads ?ts1" and len1: "length ?ts1 \<le> 100"
    by (simp_all add: threads_inv_def)
  show ?thesis
    by (rule chat_ok_cases [OF assms(2)])
       (use assms(3) in \<open>simp add: stored_after_insert [OF wf1 len1] new_thread_id_truthy\<close>)
qed

lemma stored_entries_bound: "threads_inv ts \<Longrightarrow> length (stored_entries k ts) \<le> 4"
  by (auto simp: stored_entries_def threads_get_def threads_inv_def
           split: option.splits dest!: map_of_SomeD)


lemma demo_store_inv: "threads_inv demo_store"
  by (simp add: threads_inv_def wf_threads_def demo_store_def)

lemma full_store_keys: "map fst full_store = map (\<lambda>n. replicate (Suc n) (CHR ''s'')) [0..<100]"
  by (simp add: full_store_def slot_def comp_def del: upt_Suc replicate_Suc)

lemma full_store_wf: "wf_threads full_store"
proof -
  have "inj_on (\<lambda>n. replicate (Suc n) (CHR ''s'')) (set [0..<100])"
    by (rule inj_onI) (metis length_replicate nat.inject)
  then show ?thesis
    unfolding wf_threads_def full_store_keys
    by (auto simp: distinct_map simp del: upt_Suc)
qed

lemma full_store_fresh: "''new'' \<notin> set (map fst full_store)"
  unfolding full_store_keys by (auto simp del: upt_Suc)

lemma full_store_length: "length full_store = 100"
  by (simp add: full_store_def del: upt_Suc)


lemma turn_stored:
  assumes "threads_inv ts" and "tid \<noteq> []"
    and "chatHandler ev ts (turn_request tid msg) = (r, ts', calls)"
  shows "stored_entries tid ts'
           = (case r of
                Chat_Ok m _ _ \<Rightarrow>
                  drop (length (stored_entries tid ts) - 2) (stored_entries tid ts)
                    @ [\<lparr>role = User, entry_text = msg\<rparr>, \<lparr>role = Assistant, entry_text = m\<rparr>]
              | Status_Error _ _ \<Rightarrow> stored_entries tid ts)"
proof (cases r)
  case (Status_Error c e)
  with assms(3) chat_error_store [of ev ts "turn_request tid msg" c e ts' calls]
  show ?thesis by (auto simp: resolve_history_stored)
next
  case (Chat_Ok m tid' srcs)
  let ?b = "\<lparr>messages = Some msg, threadId = Some tid\<rparr>"
  from assms(3) Chat_Ok
  have run: "chatHandler ev ts (Some ?b) = (Chat_Ok m tid' srcs, ts', calls)"
    by (simp add: turn_request_def)
  have "tid' = tid"
    by (rule chat_ok_cases [OF run]) (use assms(2) in \<open>simp add: new_thread_id_def\<close>)
  moreover have "fst (resolve_history (threadId ?b) (now_access ev) ts) = stored_entries tid ts"
    using assms(2) by (simp add: resolve_history_fst)
  ultimately show ?thesis
    using chat_ok_stored [OF assms(1) run, of msg] Chat_Ok
    by (simp add: stored_entries_def updated_entries_eq)
qed

lemma last_four_step:
  assumes "xs = drop (length h - 2) h @ [u, a]"
  shows "drop (length (xs @ es) - 4) (xs @ es)
           = drop (length (h @ u # a # es) - 4) (h @ u # a # es)"
proof -
  define k where "k = h @ [u, a]"
  have xs: "xs = drop (length k - 4) k" by (simp add: assms k_def)
  have "drop (length (xs @ es) - 4) (xs @ es) = drop (length (k @ es) - 4) (k @ es)"
    unfolding xs by (rule drop_last_idem)
  moreover have "k @ es = h @ u # a # es" by (simp add: k_def)
  ultimately show ?thesis by (simp only:)
qed

lemma chat_turns_inv:
  assumes "threads_inv ts" and "chat_turns tid ts turns = (ts', appended)"
  shows "threads_inv ts'"
  using assms
proof (induction turns arbitrary: ts ts' appended)
  case Nil
  then show ?case by simp
next
  case (Cons turn turns)
  obtain ev msg where turn: "turn = (ev, msg)" by (cases turn)
  obtain r ts1 calls where step: "chatHandler ev ts (turn_request tid msg) = (r, ts1, calls)"
    by (cases "chatHandler ev ts (turn_request tid msg)") auto
  have inv1: "threads_inv ts1"
    using threads_inv_chat [OF Cons.prems(1), of ev "turn_request tid msg"] step by simp
  obtain ts2 es where rest: "chat_turns tid ts1 turns = (ts2, es)"
    by (cases "chat_turns tid ts1 turns") auto
  from Cons.prems(2) turn step rest have "ts' = ts2"
    by (cases r) simp_all
  with Cons.IH [OF inv1 rest] show ?case by simp
qed


lemma resolve_history_absent:
  "tid \<notin> set (map fst ts) \<Longrightarrow> resolve_history (Some tid) t ts = ([], ts)"
  by (simp add: resolve_history_def threads_has_def)





section \<open>The handler in two phases\<close>

lemma chatHandler_phases:
  "chatHandler ev ts body =
     (case chat_begin ev ts body of
        (Inl r, ts1, calls) \<Rightarrow> (r, ts1, calls)
      | (Inr p, ts1, calls) \<Rightarrow> (fst (chat_finish ev p ts1), snd (chat_finish ev p ts1), calls))"
  by (auto simp: chatHandler_def chat_begin_def chat_finish_def Let_def
           split: option.splits sum.splits prod.splits)

lemma chat_begin_pending:
  assumes "chat_begin ev ts (Some b) = (Inr p, ts1, calls)"
  obtains msg rs where
    "messages b = Some msg" "msg \<noteq> []" "anthropic_configured ev"
    "searchNearDocs (search_engine ev) msg = Inr rs"
    "p = \<lparr>p_message = msg, p_threadId = threadId b, p_results = rs,
          p_history = fst (resolve_history (threadId b) (now_access ev) ts),
          p_content = user_content (fst (resolve_history (threadId b) (now_access ev) ts)) rs msg\<rparr>"
    "ts1 = snd (resolve_history (threadId b) (now_access ev) ts)"
    "calls = [Search_Call msg,
              Model_Call (user_content (fst (resolve_history (threadId b) (now_access ev) ts)) rs msg)]"
  using assms unfolding chat_begin_def failed_def
  by (auto simp: Let_def split: option.splits if_splits sum.splits prod.splits)

lemma chat_finish_ok:
  assumes "chat_finish ev p ts = (Chat_Ok m tid srcs, ts')"
  obtains blocks where
    "model_api ev (p_content p) = Inr blocks" "m = assistant_text blocks"
    "tid = new_thread_id (p_threadId p) (now_id ev)"
    "srcs = sources_of (p_results p)"
    "ts' = enforce_capacity
             (threads_set tid
                \<lparr>entries = updated_entries (p_history p) (p_message p) m, lastAccess = now_put ev\<rparr> ts)"
  using assms unfolding chat_finish_def failed_def
  by (auto simp: Let_def split: sum.splits)

lemma threads_inv_begin:
  assumes "threads_inv ts" and "chat_begin ev ts body = (out, ts1, calls)"
  shows "threads_inv ts1"
proof -
  from assms(2) have "ts1 = ts \<or> ts1 = snd (resolve_history (threadId (the body)) (now_access ev) ts)"
    unfolding chat_begin_def
    by (auto simp: Let_def split: option.splits if_splits sum.splits prod.splits)
  with assms(1) show ?thesis by (auto simp: threads_inv_resolve)
qed

lemma threads_inv_finish:
  assumes "threads_inv ts" and "chat_finish ev p ts = (r, ts')"
  shows "threads_inv ts'"
proof (cases r)
  case (Status_Error c e)
  with assms show ?thesis
    by (auto simp: chat_finish_def Let_def split: sum.splits)
next
  case (Chat_Ok m tid srcs)
  with assms(2) have h: "chat_finish ev p ts = (Chat_Ok m tid srcs, ts')" by simp
  show ?thesis
    by (rule chat_finish_ok [OF h])
       (simp add: threads_inv_insert assms(1) new_thread_id_truthy updated_entries_length)
qed

lemma chat_finish_stored:
  assumes "threads_inv ts" and "chat_finish ev p ts = (Chat_Ok m tid srcs, ts')"
  shows "threads_get tid ts'
           = Some \<lparr>entries = updated_entries (p_history p) (p_message p) m, lastAccess = now_put ev\<rparr>"
proof -
  from assms(1) have wf: "wf_threads ts" and len: "length ts \<le> 100"
    by (simp_all add: threads_inv_def)
  show ?thesis
    by (rule chat_finish_ok [OF assms(2)])
       (simp add: stored_after_insert [OF wf len] new_thread_id_truthy)
qed

lemma last_four_pair:
  "drop (length (h @ [u, a]) - 4) (h @ [u, a]) = drop (length h - 2) h @ [u, a]"
  by simp

section \<open>Runs on a full store\<close>

lemma demo_turn_ok:
  "msg \<noteq> [] \<Longrightarrow> tid \<noteq> [] \<Longrightarrow>
     fst (chatHandler (demo_env no_hits now) ts (turn_request tid msg)) = Chat_Ok ''ok'' tid []"
  by (simp add: chatHandler_def turn_request_def demo_env_def no_hits_def reply_ok_def
        searchNearDocs_def assistant_text_def new_thread_id_def sources_of_def Let_def
        split: prod.splits)

lemma turn_on_head:
  assumes "threads_inv ((k, v) # rest)" and "k \<noteq> []"
    and "chatHandler ev ((k, v) # rest) (turn_request k msg) = (Chat_Ok m tid srcs, ts', calls)"
  shows "\<exists>v'. ts' = (k, v') # rest"
proof -
  let ?ts = "(k, v) # rest"
  let ?b = "\<lparr>messages = Some msg, threadId = Some k\<rparr>"
  from assms(3) have run: "chatHandler ev ?ts (Some ?b) = (Chat_Ok m tid srcs, ts', calls)"
    by (simp add: turn_request_def)
  have res: "snd (resolve_history (Some k) (now_access ev) ?ts)
               = (k, v\<lparr>lastAccess := now_access ev\<rparr>) # rest"
    using assms(2) by (simp add: resolve_history_def threads_has_def threads_get_def)
  have len: "length rest < 100" using assms(1) by (simp add: threads_inv_def)
  show ?thesis
    by (rule chat_ok_cases [OF run])
       (use assms(2) len in \<open>simp add: res new_thread_id_def enforce_capacity_def\<close>)
qed

lemma turn_evicts_head:
  assumes "threads_inv ((k, v) # rest)" and "length rest = 99"
    and "tid \<noteq> []" and "tid \<notin> set (map fst ((k, v) # rest))"
    and "chatHandler ev ((k, v) # rest) (turn_request tid msg) = (Chat_Ok m tid' srcs, ts', calls)"
  shows "threads_get k ts' = None"
proof -
  let ?ts = "(k, v) # rest"
  let ?b = "\<lparr>messages = Some msg, threadId = Some tid\<rparr>"
  from assms(5) have run: "chatHandler ev ?ts (Some ?b) = (Chat_Ok m tid' srcs, ts', calls)"
    by (simp add: turn_request_def)
  have res: "resolve_history (Some tid) (now_access ev) ?ts = ([], ?ts)"
    using assms(4) resolve_history_absent [of tid ?ts] by simp
  have k: "k \<noteq> tid" "k \<notin> fst ` set rest" "k \<noteq> []"
    using assms(1,4) by (auto simp: threads_inv_def wf_threads_def)
  have ins: "threads_set tid x ?ts = ?ts @ [(tid, x)]" for x
    using assms(4) by (rule threads_set_fresh)
  obtain x where "ts' = enforce_capacity (threads_set tid x ?ts)"
    by (rule chat_ok_cases [OF run])
       (use assms(3) in \<open>simp add: res new_thread_id_def del: threads_set.simps\<close>)
  then have ts': "ts' = enforce_capacity (?ts @ [(tid, x)])" by (simp only: ins)
  have "wf_threads (threads_set tid x ?ts)"
    using assms(1,3) by (simp add: threads_inv_def wf_threads_set del: threads_set.simps)
  then have "wf_threads (?ts @ [(tid, x)])" by (simp only: ins)
  then have "enforce_capacity (?ts @ [(tid, x)]) = rest @ [(tid, x)]"
    using assms(2) by (simp add: enforce_capacity_wf)
  with ts' k show ?thesis
    by (simp add: threads_get_def map_add_def map_of_eq_None_iff split: option.splits)
qed

lemma full_store_head: "full_store = slot 0 # map slot [1..<100]"
  by (simp add: full_store_def upt_conv_Cons del: upt_Suc)

lemma full_store_inv: "threads_inv full_store"
  using full_store_wf full_store_length
  by (auto simp: threads_inv_def full_store_def slot_def simp del: upt_Suc)

lemma eviction_run:
  "stored_entries ''s'' after_a = [\<lparr>role = User, entry_text = ''a''\<rparr>, \<lparr>role = Assistant, entry_text = ''ok''\<rparr>]
   \<and> stored_entries ''s'' after_new = []
   \<and> stored_entries ''s'' after_b = [\<lparr>role = User, entry_text = ''b''\<rparr>, \<lparr>role = Assistant, entry_text = ''ok''\<rparr>]"
proof -
  let ?rest = "map slot [1..<100]"
  let ?v0 = "\<lparr>entries = [], lastAccess = 0\<rparr>"
  have fs: "full_store = (''s'', ?v0) # ?rest"
    by (simp add: full_store_head slot_def)
  have inv0: "threads_inv ((''s'', ?v0) # ?rest)" using full_store_inv by (simp only: fs)
  have s0: "stored_entries ''s'' full_store = []"
    by (simp add: fs stored_entries_def threads_get_def)
  obtain ts1 c1 where run1: "chatHandler (demo_env no_hits 10) full_store (turn_request ''s'' ''a'')
                               = (Chat_Ok ''ok'' ''s'' [], ts1, c1)"
    using demo_turn_ok [of "''a''" "''s''" 10 full_store] by (metis list.distinct(1) prod.collapse)
  then have a: "after_a = ts1" by (simp add: after_a_def)
  have e1: "stored_entries ''s'' ts1 = [\<lparr>role = User, entry_text = ''a''\<rparr>, \<lparr>role = Assistant, entry_text = ''ok''\<rparr>]"
    using turn_stored [OF full_store_inv _ run1] s0 by simp
  from turn_on_head [OF inv0 _ run1 [unfolded fs]]
  obtain v1 where ts1: "ts1 = (''s'', v1) # ?rest" by auto
  have inv1: "threads_inv ((''s'', v1) # ?rest)"
    using threads_inv_chat [OF full_store_inv, of "demo_env no_hits 10" "turn_request ''s'' ''a''"]
          run1 ts1 by simp
  obtain ts2 c2 where run2: "chatHandler (demo_env no_hits 20) ts1 (turn_request ''new'' ''x'')
                               = (Chat_Ok ''ok'' ''new'' [], ts2, c2)"
    using demo_turn_ok [of "''x''" "''new''" 20 ts1] by (metis list.distinct(1) prod.collapse)
  then have n: "after_new = ts2" by (simp add: after_new_def a)
  have fresh: "''new'' \<notin> set (map fst ((''s'', v1) # ?rest))"
    using full_store_fresh by (simp add: fs)
  have "threads_get ''s'' ts2 = None"
    by (rule turn_evicts_head [OF inv1 _ _ fresh run2 [unfolded ts1]]) simp_all
  then have e2: "stored_entries ''s'' ts2 = []" by (simp add: stored_entries_def)
  have inv2: "threads_inv ts2"
    using threads_inv_chat [OF inv1, of "demo_env no_hits 20" "turn_request ''new'' ''x''"]
          run2 ts1 by simp
  obtain ts3 c3 where run3: "chatHandler (demo_env no_hits 30) ts2 (turn_request ''s'' ''b'')
                               = (Chat_Ok ''ok'' ''s'' [], ts3, c3)"
    using demo_turn_ok [of "''b''" "''s''" 30 ts2] by (metis list.distinct(1) prod.collapse)
  then have b: "after_b = ts3" by (simp add: after_b_def n)
  have e3: "stored_entries ''s'' ts3 = [\<lparr>role = User, entry_text = ''b''\<rparr>, \<lparr>role = Assistant, entry_text = ''ok''\<rparr>]"
    using turn_stored [OF inv2 _ run3] e2 by simp
  from e1 e2 e3 show ?thesis by (simp add: a n b)
qed

lemma chat_begin_history:
  assumes "chat_begin ev ts (Some b) = (Inr p, ts1, calls)"
  shows "p_history p
           = (case threadId b of None \<Rightarrow> [] | Some k \<Rightarrow> if k = [] then [] else stored_entries k ts)"
  by (rule chat_begin_pending [OF assms]) (simp add: resolve_history_fst)

text \<open>
  C4.  The history block is empty for an empty history; otherwise it is the wrapper
  around one line per entry of the last four, each line the role, a colon and a space,
  and the first 200 characters of the text.  That block, built from the entries stored
  under the request's thread id, is what the model is sent, before the search context
  and the message.  The record stored when the turn completes holds those same entries
  as they were stored, the oldest dropped beyond two, followed by the user message and
  the assistant message in full, whatever their length.
\<close>

theorem history_block_format:
  "buildHistoryContext [] = []
   \<and> (h \<noteq> [] \<longrightarrow>
        buildHistoryContext h
          = ''<conversation_history>\<newline>''
              @ js_join ''\<newline>''
                  (map (\<lambda>e. role_text (role e) @ '': '' @ take 200 (entry_text e))
                     (drop (length h - 4) h))
              @ ''\<newline></conversation_history>\<newline>\<newline>'')
   \<and> (chat_begin ev ts (Some b) = (Inr p, ts1, calls) \<and> messages b = Some msg
        \<and> old = (case threadId b of None \<Rightarrow> []
                  | Some k \<Rightarrow> if k = [] then [] else stored_entries k ts)
        \<and> threads_inv ts2 \<and> chat_finish ev p ts2 = (Chat_Ok m tid srcs, ts3)
        \<longrightarrow> (\<exists>rs. searchNearDocs (search_engine ev) msg = Inr rs
                  \<and> calls = [Search_Call msg,
                              Model_Call (buildHistoryContext old @ buildSearchContext rs
                                            @ ''\<newline>\<newline>'' @ msg)])
            \<and> threads_get tid ts3
                = Some \<lparr>entries = drop (length old - 2) old
                                     @ [\<lparr>role = User, entry_text = msg\<rparr>,
                                        \<lparr>role = Assistant, entry_text = m\<rparr>],
                        lastAccess = now_put ev\<rparr>)"
proof (intro conjI impI)
  show "buildHistoryContext [] = []" by (simp add: buildHistoryContext_def)
next
  assume "h \<noteq> []"
  moreover have "history_line = (\<lambda>e. role_text (role e) @ '': '' @ take 200 (entry_text e))"
    by (rule ext) (simp add: history_line_def MAX_HISTORY_CHAR_def js_slice_prefix)
  ultimately show "buildHistoryContext h
          = ''<conversation_history>\<newline>''
              @ js_join ''\<newline>''
                  (map (\<lambda>e. role_text (role e) @ '': '' @ take 200 (entry_text e))
                     (drop (length h - 4) h))
              @ ''\<newline></conversation_history>\<newline>\<newline>''"
    by (simp add: buildHistoryContext_def MAX_HISTORY_ENTRIES_def js_slice_last)
next
  assume a: "chat_begin ev ts (Some b) = (Inr p, ts1, calls) \<and> messages b = Some msg
        \<and> old = (case threadId b of None \<Rightarrow> []
                  | Some k \<Rightarrow> if k = [] then [] else stored_entries k ts)
        \<and> threads_inv ts2 \<and> chat_finish ev p ts2 = (Chat_Ok m tid srcs, ts3)"
  then have beg: "chat_begin ev ts (Some b) = (Inr p, ts1, calls)" by simp
  from a chat_begin_history [OF beg] have old: "p_history p = old" by simp
  have old': "fst (resolve_history (threadId b) (now_access ev) ts) = old"
    by (rule chat_begin_pending [OF beg]) (use old in simp)
  show "\<exists>rs. searchNearDocs (search_engine ev) msg = Inr rs
           \<and> calls = [Search_Call msg,
                       Model_Call (buildHistoryContext old @ buildSearchContext rs
                                     @ ''\<newline>\<newline>'' @ msg)]"
    by (rule chat_begin_pending [OF beg]) (use a in \<open>simp add: old' user_content_def\<close>)
  have pm: "p_message p = msg"
    by (rule chat_begin_pending [OF beg]) (use a in simp)
  from a have "threads_get tid ts3
                 = Some \<lparr>entries = updated_entries (p_history p) (p_message p) m,
                         lastAccess = now_put ev\<rparr>"
    using chat_finish_stored by blast
  then show "threads_get tid ts3
                = Some \<lparr>entries = drop (length old - 2) old
                                     @ [\<lparr>role = User, entry_text = msg\<rparr>,
                                        \<lparr>role = Assistant, entry_text = m\<rparr>],
                        lastAccess = now_put ev\<rparr>"
    by (simp add: old pm updated_entries_eq)
qed

theorem history_block_format_witness:
  "long_history \<noteq> []
   \<and> buildHistoryContext long_history
       = ''<conversation_history>\<newline>assistant: two\<newline>user: '' @ replicate 200 (CHR ''x'')
           @ ''\<newline>assistant: four\<newline>user: five\<newline></conversation_history>\<newline>\<newline>''
   \<and> chat_begin (demo_env no_hits 9) long_store (Some \<lparr>messages = Some ''q'', threadId = Some ''t''\<rparr>)
       = (Inr \<lparr>p_message = ''q'', p_threadId = Some ''t'', p_results = [],
               p_history = [\<lparr>role = User, entry_text = replicate 250 (CHR ''x'')\<rparr>,
                            \<lparr>role = Assistant, entry_text = ''two''\<rparr>],
               p_content = long_content\<rparr>,
          [(''t'', \<lparr>entries = [\<lparr>role = User, entry_text = replicate 250 (CHR ''x'')\<rparr>,
                                \<lparr>role = Assistant, entry_text = ''two''\<rparr>], lastAccess = 9\<rparr>)],
          [Search_Call ''q'', Model_Call long_content])
   \<and> threads_inv [(''t'', \<lparr>entries = [\<lparr>role = User, entry_text = replicate 250 (CHR ''x'')\<rparr>,
                                        \<lparr>role = Assistant, entry_text = ''two''\<rparr>], lastAccess = 9\<rparr>)]
   \<and> fst (chat_finish (demo_env no_hits 9)
              \<lparr>p_message = ''q'', p_threadId = Some ''t'', p_results = [],
               p_history = [\<lparr>role = User, entry_text = replicate 250 (CHR ''x'')\<rparr>,
                            \<lparr>role = Assistant, entry_text = ''two''\<rparr>],
               p_content = long_content\<rparr>
              [(''t'', \<lparr>entries = [\<lparr>role = User, entry_text = replicate 250 (CHR ''x'')\<rparr>,
                                    \<lparr>role = Assistant, entry_text = ''two''\<rparr>], lastAccess = 9\<rparr>)])
       = Chat_Ok ''ok'' ''t'' []
   \<and> threads_get ''t''
         (snd (chat_finish (demo_env no_hits 9)
              \<lparr>p_message = ''q'', p_threadId = Some ''t'', p_results = [],
               p_history = [\<lparr>role = User, entry_text = replicate 250 (CHR ''x'')\<rparr>,
                            \<lparr>role = Assistant, entry_text = ''two''\<rparr>],
               p_content = long_content\<rparr>
              [(''t'', \<lparr>entries = [\<lparr>role = User, entry_text = replicate 250 (CHR ''x'')\<rparr>,
                                    \<lparr>role = Assistant, entry_text = ''two''\<rparr>], lastAccess = 9\<rparr>)]))
       = Some \<lparr>entries = [\<lparr>role = User, entry_text = replicate 250 (CHR ''x'')\<rparr>,
                           \<lparr>role = Assistant, entry_text = ''two''\<rparr>,
                           \<lparr>role = User, entry_text = ''q''\<rparr>,
                           \<lparr>role = Assistant, entry_text = ''ok''\<rparr>], lastAccess = 9\<rparr>"
proof -
  let ?b = "\<lparr>messages = Some ''q'', threadId = Some ''t''\<rparr>"
  let ?old = "[\<lparr>role = User, entry_text = replicate 250 (CHR ''x'')\<rparr>,
               \<lparr>role = Assistant, entry_text = ''two''\<rparr>]"
  let ?p = "\<lparr>p_message = ''q'', p_threadId = Some ''t'', p_results = [],
             p_history = ?old, p_content = long_content\<rparr>"
  let ?touched = "[(''t'', \<lparr>entries = ?old, lastAccess = 9\<rparr>)]"
  have ne: "long_history \<noteq> []" by (simp add: long_history_def)
  have x: "take 200 (replicate 250 (CHR ''x'')) = replicate 200 (CHR ''x'')" by simp
  have beg: "chat_begin (demo_env no_hits 9) long_store (Some ?b)
               = (Inr ?p, ?touched, [Search_Call ''q'', Model_Call long_content])"
    by (simp add: chat_begin_def demo_env_def no_hits_def searchNearDocs_def long_store_def
          resolve_history_def threads_has_def threads_get_def user_content_def
          buildHistoryContext_def buildSearchContext_def history_line_def
          MAX_HISTORY_ENTRIES_def MAX_HISTORY_CHAR_def js_slice_last js_slice_prefix x
          long_content_def Let_def)
  have inv: "threads_inv ?touched" by (simp add: threads_inv_def wf_threads_def)
  have resp: "fst (chat_finish (demo_env no_hits 9) ?p ?touched) = Chat_Ok ''ok'' ''t'' []"
    by (simp add: chat_finish_def demo_env_def reply_ok_def assistant_text_def
          new_thread_id_def sources_of_def Let_def)
  then obtain ts3 where fin: "chat_finish (demo_env no_hits 9) ?p ?touched = (Chat_Ok ''ok'' ''t'' [], ts3)"
    by (metis prod.collapse)
  have se: "stored_entries ''t'' long_store = ?old"
    by (simp add: stored_entries_def threads_get_def long_store_def)
  have msg: "messages ?b = Some ''q''" by simp
  from history_block_format
         [where h = long_history and ev = "demo_env no_hits 9" and ts = long_store and b = ?b
            and p = ?p and ?ts1.0 = ?touched and calls = "[Search_Call ''q'', Model_Call long_content]"
            and msg = "''q''" and old = ?old and ?ts2.0 = ?touched and m = "''ok''" and tid = "''t''"
            and srcs = "[]" and ?ts3.0 = ts3]
       ne beg msg inv fin
  have "buildHistoryContext long_history
       = ''<conversation_history>\<newline>assistant: two\<newline>user: '' @ replicate 200 (CHR ''x'')
           @ ''\<newline>assistant: four\<newline>user: five\<newline></conversation_history>\<newline>\<newline>''"
    and "threads_get ''t'' ts3
       = Some \<lparr>entries = [\<lparr>role = User, entry_text = replicate 250 (CHR ''x'')\<rparr>,
                           \<lparr>role = Assistant, entry_text = ''two''\<rparr>,
                           \<lparr>role = User, entry_text = ''q''\<rparr>,
                           \<lparr>role = Assistant, entry_text = ''ok''\<rparr>], lastAccess = 9\<rparr>"
    by (simp_all add: long_history_def x demo_env_def se)
  with ne beg inv resp fin show ?thesis by simp
qed

section \<open>Turns one after another\<close>

lemma chat_turns_last_four:
  assumes "threads_inv ts" and "tid \<noteq> []"
    and "chat_turns tid ts turns = (ts', appended)"
  shows "stored_entries tid ts'
           = drop (length (stored_entries tid ts @ appended) - 4) (stored_entries tid ts @ appended)
         \<and> length (stored_entries tid ts') \<le> 4
         \<and> (\<forall>kv \<in> set ts'. length (entries (snd kv)) \<le> 4)"
proof -
  have "threads_inv ts'" using assms(1,3) by (rule chat_turns_inv)
  then have all: "\<forall>kv \<in> set ts'. length (entries (snd kv)) \<le> 4"
    by (simp add: threads_inv_def)
  have "stored_entries tid ts'
          = drop (length (stored_entries tid ts @ appended) - 4) (stored_entries tid ts @ appended)"
    using assms(1,3)
  proof (induction turns arbitrary: ts ts' appended)
    case Nil
    then show ?case using stored_entries_bound [of ts tid] by simp
  next
    case (Cons turn turns)
    obtain ev msg where turn: "turn = (ev, msg)" by (cases turn)
    obtain r ts1 calls where step: "chatHandler ev ts (turn_request tid msg) = (r, ts1, calls)"
      by (cases "chatHandler ev ts (turn_request tid msg)") auto
    have inv1: "threads_inv ts1"
      using threads_inv_chat [OF Cons.prems(1), of ev "turn_request tid msg"] step by simp
    note st = turn_stored [OF Cons.prems(1) assms(2) step]
    show ?case
    proof (cases r)
      case (Status_Error c e)
      with Cons.prems(2) turn step have "chat_turns tid ts1 turns = (ts', appended)" by simp
      from Cons.IH [OF inv1 this] st Status_Error show ?thesis by simp
    next
      case (Chat_Ok m tid' srcs)
      obtain ts2 es where rest: "chat_turns tid ts1 turns = (ts2, es)"
        by (cases "chat_turns tid ts1 turns") auto
      with Cons.prems(2) turn step Chat_Ok
      have eq: "ts' = ts2"
        "appended = \<lparr>role = User, entry_text = msg\<rparr> # \<lparr>role = Assistant, entry_text = m\<rparr> # es"
        by simp_all
      from st Chat_Ok
      have s1: "stored_entries tid ts1
                  = drop (length (stored_entries tid ts) - 2) (stored_entries tid ts)
                      @ [\<lparr>role = User, entry_text = msg\<rparr>, \<lparr>role = Assistant, entry_text = m\<rparr>]"
        by simp
      from Cons.IH [OF inv1 rest] eq
      show ?thesis
        by (simp only: last_four_step [OF s1] append_assoc append_Cons append_Nil)
    qed
  qed
  with all show ?thesis by simp
qed

text \<open>
  C2, as the code has it.  A turn that completes stores, under its thread id, the last
  four of the entries it read when it resolved the session followed by its user and
  assistant texts, in that order, whatever happened to the store while the model was
  called; no record ever has more than four entries.  When requests on one supplied,
  non-empty thread id are handled one after another with nothing in between, the
  stored history is therefore the last four of what the session held before followed
  by the user and assistant texts of the completed turns, in order.
\<close>

theorem stored_history_is_last_four:
  "(chat_begin ev ts (Some b) = (Inr p, ts1, calls) \<and> messages b = Some msg
      \<and> old = (case threadId b of None \<Rightarrow> []
                | Some k \<Rightarrow> if k = [] then [] else stored_entries k ts)
      \<and> threads_inv ts2 \<and> chat_finish ev p ts2 = (Chat_Ok m nid srcs, ts3)
    \<longrightarrow> stored_entries nid ts3
          = drop (length (old @ [\<lparr>role = User, entry_text = msg\<rparr>,
                                 \<lparr>role = Assistant, entry_text = m\<rparr>]) - 4)
              (old @ [\<lparr>role = User, entry_text = msg\<rparr>, \<lparr>role = Assistant, entry_text = m\<rparr>])
        \<and> length (stored_entries nid ts3) \<le> 4
        \<and> (\<forall>kv \<in> set ts3. length (entries (snd kv)) \<le> 4))
   \<and> (threads_inv ts0 \<and> tid \<noteq> [] \<and> chat_turns tid ts0 turns = (ts', appended)
    \<longrightarrow> stored_entries tid ts'
          = drop (length (stored_entries tid ts0 @ appended) - 4)
              (stored_entries tid ts0 @ appended)
        \<and> length (stored_entries tid ts') \<le> 4
        \<and> (\<forall>kv \<in> set ts'. length (entries (snd kv)) \<le> 4))"
proof (intro conjI impI)
  assume a: "chat_begin ev ts (Some b) = (Inr p, ts1, calls) \<and> messages b = Some msg
      \<and> old = (case threadId b of None \<Rightarrow> []
                | Some k \<Rightarrow> if k = [] then [] else stored_entries k ts)
      \<and> threads_inv ts2 \<and> chat_finish ev p ts2 = (Chat_Ok m nid srcs, ts3)"
  then have beg: "chat_begin ev ts (Some b) = (Inr p, ts1, calls)" by simp
  from a chat_begin_history [OF beg] have old: "p_history p = old" by simp
  have pm: "p_message p = msg"
    by (rule chat_begin_pending [OF beg]) (use a in simp)
  from a have "threads_get nid ts3
                 = Some \<lparr>entries = updated_entries (p_history p) (p_message p) m,
                         lastAccess = now_put ev\<rparr>"
    using chat_finish_stored by blast
  then have st: "stored_entries nid ts3 = updated_entries old msg m"
    by (simp add: stored_entries_def old pm)
  then show "stored_entries nid ts3
          = drop (length (old @ [\<lparr>role = User, entry_text = msg\<rparr>,
                                 \<lparr>role = Assistant, entry_text = m\<rparr>]) - 4)
              (old @ [\<lparr>role = User, entry_text = msg\<rparr>, \<lparr>role = Assistant, entry_text = m\<rparr>])"
    by (simp add: updated_entries_eq)
  from st show "length (stored_entries nid ts3) \<le> 4"
    by (simp add: updated_entries_length)
  from a have "threads_inv ts3" using threads_inv_finish by blast
  then show "\<forall>kv \<in> set ts3. length (entries (snd kv)) \<le> 4"
    by (simp add: threads_inv_def)
next
  assume "threads_inv ts0 \<and> tid \<noteq> [] \<and> chat_turns tid ts0 turns = (ts', appended)"
  then have seq: "stored_entries tid ts'
          = drop (length (stored_entries tid ts0 @ appended) - 4)
              (stored_entries tid ts0 @ appended)
        \<and> length (stored_entries tid ts') \<le> 4
        \<and> (\<forall>kv \<in> set ts'. length (entries (snd kv)) \<le> 4)"
    using chat_turns_last_four by blast
  from seq show "stored_entries tid ts'
          = drop (length (stored_entries tid ts0 @ appended) - 4)
              (stored_entries tid ts0 @ appended)" by simp
  from seq show "length (stored_entries tid ts') \<le> 4" by simp
  from seq show "\<forall>kv \<in> set ts'. length (entries (snd kv)) \<le> 4" by simp
qed

lemma begin_fresh:
  "msg \<noteq> [] \<Longrightarrow> tid \<notin> set (map fst ts) \<Longrightarrow>
     chat_begin (demo_env no_hits now) ts (turn_request tid msg)
       = (Inr (asks tid msg), ts, [Search_Call msg, Model_Call (no_documents msg)])"
  by (simp add: chat_begin_def turn_request_def demo_env_def no_hits_def searchNearDocs_def
        resolve_history_absent user_content_def buildHistoryContext_def buildSearchContext_def
        asks_def no_documents_def Let_def)

text \<open>
  The claim C2 as written fails.  In each of four runs the session has two completed
  turns, \<open>a\<close> then \<open>b\<close>, and holds afterwards only the second: two requests whose model
  calls overlap; two requests without a thread id in the same millisecond, which mint
  the same id; a full store, where the turn of another session evicts the first record
  in between; and a sweep in between, more than 30 minutes after the first turn.
\<close>

theorem later_turn_forgets_earlier_counterexample:
  "chat_begin (demo_env no_hits 10) [] (turn_request ''t'' ''a'')
     = (Inr (asks ''t'' ''a''), [], [Search_Call ''a'', Model_Call (no_documents ''a'')])
   \<and> chat_begin (demo_env no_hits 11) [] (turn_request ''t'' ''b'')
     = (Inr (asks ''t'' ''b''), [], [Search_Call ''b'', Model_Call (no_documents ''b'')])
   \<and> chat_finish (demo_env no_hits 10) (asks ''t'' ''a'') []
     = (Chat_Ok ''ok'' ''t'' [], [(''t'', \<lparr>entries = exchange ''a'' ''ok'', lastAccess = 10\<rparr>)])
   \<and> chat_finish (demo_env no_hits 11) (asks ''t'' ''b'')
        [(''t'', \<lparr>entries = exchange ''a'' ''ok'', lastAccess = 10\<rparr>)]
     = (Chat_Ok ''ok'' ''t'' [], [(''t'', \<lparr>entries = exchange ''b'' ''ok'', lastAccess = 11\<rparr>)])
   \<and> chatHandler (demo_env no_hits 500) [] (Some \<lparr>messages = Some ''a'', threadId = None\<rparr>)
     = (Chat_Ok ''ok'' ''thread_500'' [],
        [(''thread_500'', \<lparr>entries = exchange ''a'' ''ok'', lastAccess = 500\<rparr>)],
        [Search_Call ''a'', Model_Call (no_documents ''a'')])
   \<and> chatHandler (demo_env no_hits 500)
        [(''thread_500'', \<lparr>entries = exchange ''a'' ''ok'', lastAccess = 500\<rparr>)]
        (Some \<lparr>messages = Some ''b'', threadId = None\<rparr>)
     = (Chat_Ok ''ok'' ''thread_500'' [],
        [(''thread_500'', \<lparr>entries = exchange ''b'' ''ok'', lastAccess = 500\<rparr>)],
        [Search_Call ''b'', Model_Call (no_documents ''b'')])
   \<and> threads_inv full_store
   \<and> fst (chatHandler (demo_env no_hits 10) full_store (turn_request ''s'' ''a''))
       = Chat_Ok ''ok'' ''s'' []
   \<and> stored_entries ''s'' after_a = exchange ''a'' ''ok''
   \<and> fst (chatHandler (demo_env no_hits 20) after_a (turn_request ''new'' ''x''))
       = Chat_Ok ''ok'' ''new'' []
   \<and> stored_entries ''s'' after_new = []
   \<and> fst (chatHandler (demo_env no_hits 30) after_new (turn_request ''s'' ''b''))
       = Chat_Ok ''ok'' ''s'' []
   \<and> stored_entries ''s'' after_b = exchange ''b'' ''ok''
   \<and> chatHandler (demo_env no_hits 10) [] (turn_request ''t'' ''a'')
     = (Chat_Ok ''ok'' ''t'' [], [(''t'', \<lparr>entries = exchange ''a'' ''ok'', lastAccess = 10\<rparr>)],
        [Search_Call ''a'', Model_Call (no_documents ''a'')])
   \<and> cleanExpiredThreads 1800011 [(''t'', \<lparr>entries = exchange ''a'' ''ok'', lastAccess = 10\<rparr>)] = []
   \<and> chatHandler (demo_env no_hits 1800012) [] (turn_request ''t'' ''b'')
     = (Chat_Ok ''ok'' ''t'' [], [(''t'', \<lparr>entries = exchange ''b'' ''ok'', lastAccess = 1800012\<rparr>)],
        [Search_Call ''b'', Model_Call (no_documents ''b'')])"
proof -
  have fin: "chat_finish (demo_env no_hits now) (asks ''t'' msg) ts
               = (Chat_Ok ''ok'' ''t'' [],
                  enforce_capacity (threads_set ''t'' \<lparr>entries = exchange msg ''ok'', lastAccess = now\<rparr> ts))"
    for now msg ts
    by (simp add: chat_finish_def demo_env_def reply_ok_def assistant_text_def asks_def
          new_thread_id_def updated_entries_def js_slice_def MAX_HISTORY_ENTRIES_def
          sources_of_def exchange_def Let_def del: threads_set.simps)
  have seq: "chatHandler (demo_env no_hits now) [] (turn_request ''t'' msg)
               = (Chat_Ok ''ok'' ''t'' [], [(''t'', \<lparr>entries = exchange msg ''ok'', lastAccess = now\<rparr>)],
                  [Search_Call msg, Model_Call (no_documents msg)])"
    if "msg \<noteq> []" for now msg
    using that begin_fresh [of msg "''t''" "[]" now]
    by (simp add: chatHandler_phases fin enforce_capacity_def)
  have mint: "chatHandler (demo_env no_hits 500) ts (Some \<lparr>messages = Some msg, threadId = None\<rparr>)
                = (Chat_Ok ''ok'' ''thread_500'' [],
                   enforce_capacity
                     (threads_set ''thread_500'' \<lparr>entries = exchange msg ''ok'', lastAccess = 500\<rparr> ts),
                   [Search_Call msg, Model_Call (no_documents msg)])"
    if "msg \<noteq> []" for msg ts
    using that
    by (simp add: chatHandler_def demo_env_def no_hits_def reply_ok_def searchNearDocs_def
          resolve_history_def assistant_text_def new_thread_id_def show_int_def
          show_nat.simps digit_char_def updated_entries_def js_slice_def
          MAX_HISTORY_ENTRIES_def sources_of_def user_content_def buildHistoryContext_def
          buildSearchContext_def no_documents_def exchange_def Let_def
          del: threads_set.simps)
  have sweep: "cleanExpiredThreads 1800011 [(''t'', \<lparr>entries = exchange ''a'' ''ok'', lastAccess = 10\<rparr>)] = []"
    by (simp add: cleanExpiredThreads_def threads_delete_def THREAD_TTL_MS_def)
  note ev = eviction_run [folded exchange_def]
  show ?thesis
    using ev full_store_inv
    by (simp add: begin_fresh fin seq mint sweep demo_turn_ok enforce_capacity_def)
qed

theorem stored_history_is_last_four_witness:
  "chat_begin (demo_env no_hits 10) demo_store
       (Some \<lparr>messages = Some ''a'', threadId = Some ''t''\<rparr>)
     = (Inr \<lparr>p_message = ''a'', p_threadId = Some ''t'', p_results = [],
             p_history = [\<lparr>role = User, entry_text = ''hi''\<rparr>],
             p_content = ''<conversation_history>\<newline>user: hi\<newline></conversation_history>\<newline>\<newline>''
                           @ no_documents ''a''\<rparr>,
        [(''t'', \<lparr>entries = [\<lparr>role = User, entry_text = ''hi''\<rparr>], lastAccess = 10\<rparr>),
         (''u'', \<lparr>entries = [], lastAccess = 1000\<rparr>)],
        [Search_Call ''a'',
         Model_Call (''<conversation_history>\<newline>user: hi\<newline></conversation_history>\<newline>\<newline>''
                       @ no_documents ''a'')])
   \<and> threads_inv [(''t'', \<lparr>entries = \<lparr>role = User, entry_text = ''hi''\<rparr> # exchange ''z'' ''ok'',
                            lastAccess = 12\<rparr>),
                    (''u'', \<lparr>entries = [], lastAccess = 1000\<rparr>)]
   \<and> chat_finish (demo_env no_hits 10)
        \<lparr>p_message = ''a'', p_threadId = Some ''t'', p_results = [],
         p_history = [\<lparr>role = User, entry_text = ''hi''\<rparr>],
         p_content = ''<conversation_history>\<newline>user: hi\<newline></conversation_history>\<newline>\<newline>''
                       @ no_documents ''a''\<rparr>
        [(''t'', \<lparr>entries = \<lparr>role = User, entry_text = ''hi''\<rparr> # exchange ''z'' ''ok'',
                   lastAccess = 12\<rparr>),
         (''u'', \<lparr>entries = [], lastAccess = 1000\<rparr>)]
     = (Chat_Ok ''ok'' ''t'' [],
        [(''t'', \<lparr>entries = \<lparr>role = User, entry_text = ''hi''\<rparr> # exchange ''a'' ''ok'',
                   lastAccess = 10\<rparr>),
         (''u'', \<lparr>entries = [], lastAccess = 1000\<rparr>)])
   \<and> stored_entries ''t''
        [(''t'', \<lparr>entries = \<lparr>role = User, entry_text = ''hi''\<rparr> # exchange ''a'' ''ok'',
                   lastAccess = 10\<rparr>),
         (''u'', \<lparr>entries = [], lastAccess = 1000\<rparr>)]
     = drop (length ([\<lparr>role = User, entry_text = ''hi''\<rparr>]
                       @ [\<lparr>role = User, entry_text = ''a''\<rparr>,
                          \<lparr>role = Assistant, entry_text = ''ok''\<rparr>]) - 4)
         ([\<lparr>role = User, entry_text = ''hi''\<rparr>]
            @ [\<lparr>role = User, entry_text = ''a''\<rparr>, \<lparr>role = Assistant, entry_text = ''ok''\<rparr>])
   \<and> threads_inv demo_store \<and> ''t'' \<noteq> []
   \<and> chat_turns ''t'' demo_store
        [(demo_env no_hits 10, ''a''), (demo_env search_down 20, ''b''), (demo_env two_hits 30, ''c'')]
       = ([(''t'', \<lparr>entries = exchange ''a'' ''ok'' @ exchange ''c'' ''ok'', lastAccess = 30\<rparr>),
           (''u'', \<lparr>entries = [], lastAccess = 1000\<rparr>)],
          exchange ''a'' ''ok'' @ exchange ''c'' ''ok'')
   \<and> stored_entries ''t''
         [(''t'', \<lparr>entries = exchange ''a'' ''ok'' @ exchange ''c'' ''ok'', lastAccess = 30\<rparr>),
           (''u'', \<lparr>entries = [], lastAccess = 1000\<rparr>)]
       = drop (length (stored_entries ''t'' demo_store
                         @ exchange ''a'' ''ok'' @ exchange ''c'' ''ok'') - 4)
           (stored_entries ''t'' demo_store @ exchange ''a'' ''ok'' @ exchange ''c'' ''ok'')"
proof -
  let ?hi = "\<lparr>role = User, entry_text = ''hi''\<rparr>"
  let ?p = "\<lparr>p_message = ''a'', p_threadId = Some ''t'', p_results = [], p_history = [?hi],
             p_content = ''<conversation_history>\<newline>user: hi\<newline></conversation_history>\<newline>\<newline>''
                           @ no_documents ''a''\<rparr>"
  let ?touched = "[(''t'', \<lparr>entries = [?hi], lastAccess = 10\<rparr>),
                   (''u'', \<lparr>entries = [], lastAccess = 1000\<rparr>)]"
  let ?calls = "[Search_Call ''a'',
                 Model_Call (''<conversation_history>\<newline>user: hi\<newline></conversation_history>\<newline>\<newline>''
                               @ no_documents ''a'')]"
  let ?later = "[(''t'', \<lparr>entries = ?hi # exchange ''z'' ''ok'', lastAccess = 12\<rparr>),
                 (''u'', \<lparr>entries = [], lastAccess = 1000\<rparr>)]"
  let ?final = "[(''t'', \<lparr>entries = ?hi # exchange ''a'' ''ok'', lastAccess = 10\<rparr>),
                 (''u'', \<lparr>entries = [], lastAccess = 1000\<rparr>)]"
  let ?b = "\<lparr>messages = Some ''a'', threadId = Some ''t''\<rparr>"
  have beg: "chat_begin (demo_env no_hits 10) demo_store (Some ?b) = (Inr ?p, ?touched, ?calls)"
    by (simp add: chat_begin_def demo_env_def no_hits_def searchNearDocs_def demo_store_def
          resolve_history_def threads_has_def threads_get_def user_content_def
          buildHistoryContext_def buildSearchContext_def history_line_def
          MAX_HISTORY_ENTRIES_def MAX_HISTORY_CHAR_def js_slice_def no_documents_def Let_def)
  have inv: "threads_inv ?later"
    by (simp add: threads_inv_def wf_threads_def exchange_def)
  have fin: "chat_finish (demo_env no_hits 10) ?p ?later = (Chat_Ok ''ok'' ''t'' [], ?final)"
    by (simp add: chat_finish_def demo_env_def reply_ok_def assistant_text_def
          new_thread_id_def updated_entries_def js_slice_def MAX_HISTORY_ENTRIES_def
          sources_of_def enforce_capacity_def exchange_def Let_def)
  have run: "chat_turns ''t'' demo_store
        [(demo_env no_hits 10, ''a''), (demo_env search_down 20, ''b''), (demo_env two_hits 30, ''c'')]
       = ([(''t'', \<lparr>entries = exchange ''a'' ''ok'' @ exchange ''c'' ''ok'', lastAccess = 30\<rparr>),
           (''u'', \<lparr>entries = [], lastAccess = 1000\<rparr>)],
          exchange ''a'' ''ok'' @ exchange ''c'' ''ok'')"
    by (simp add: turn_request_def chatHandler_def demo_env_def demo_store_def no_hits_def
          search_down_def two_hits_def reply_ok_def searchNearDocs_def failed_def
          resolve_history_def threads_has_def threads_get_def assistant_text_def
          new_thread_id_def updated_entries_def js_slice_def MAX_HISTORY_ENTRIES_def
          enforce_capacity_def exchange_def Let_def)
  have se: "stored_entries ''t'' demo_store = [?hi]"
    by (simp add: stored_entries_def threads_get_def demo_store_def)
  have t: "''t'' \<noteq> []" by simp
  have prem1: "chat_begin (demo_env no_hits 10) demo_store (Some ?b) = (Inr ?p, ?touched, ?calls)
      \<and> messages ?b = Some ''a''
      \<and> [?hi] = (case threadId ?b of None \<Rightarrow> []
                  | Some k \<Rightarrow> if k = [] then [] else stored_entries k demo_store)
      \<and> threads_inv ?later
      \<and> chat_finish (demo_env no_hits 10) ?p ?later = (Chat_Ok ''ok'' ''t'' [], ?final)"
    using beg inv fin by (simp add: se)
  have prem2: "threads_inv demo_store \<and> ''t'' \<noteq> []
      \<and> chat_turns ''t'' demo_store
           [(demo_env no_hits 10, ''a''), (demo_env search_down 20, ''b''),
            (demo_env two_hits 30, ''c'')]
         = ([(''t'', \<lparr>entries = exchange ''a'' ''ok'' @ exchange ''c'' ''ok'', lastAccess = 30\<rparr>),
             (''u'', \<lparr>entries = [], lastAccess = 1000\<rparr>)],
            exchange ''a'' ''ok'' @ exchange ''c'' ''ok'')"
    by (intro conjI) (rule demo_store_inv, rule t, rule run)
  note both = stored_history_is_last_four
         [where ev = "demo_env no_hits 10" and ts = demo_store and b = ?b and p = ?p
            and ?ts1.0 = ?touched and calls = ?calls and msg = "''a''" and old = "[?hi]"
            and ?ts2.0 = ?later and m = "''ok''" and nid = "''t''" and srcs = "[]"
            and ?ts3.0 = ?final and ?ts0.0 = demo_store and tid = "''t''"
            and turns = "[(demo_env no_hits 10, ''a''), (demo_env search_down 20, ''b''),
                          (demo_env two_hits 30, ''c'')]"
            and ts' = "[(''t'', \<lparr>entries = exchange ''a'' ''ok'' @ exchange ''c'' ''ok'',
                                   lastAccess = 30\<rparr>),
                        (''u'', \<lparr>entries = [], lastAccess = 1000\<rparr>)]"
            and appended = "exchange ''a'' ''ok'' @ exchange ''c'' ''ok''"]
  note p1 = both [THEN conjunct1, THEN mp, OF prem1, THEN conjunct1]
  note p2 = both [THEN conjunct2, THEN mp, OF prem2, THEN conjunct1]
  from beg inv fin p1 demo_store_inv t run p2 show ?thesis
    by (intro conjI) assumption+
qed

end
